theory Spec2Isabelle
  imports Main
begin

section \<open>The OpenSearch shard collector\<close>

text \<open>
  A shallow embedding of package \<open>opensearch\<close> of the instrumentation exporter agent:
  the size parser \<open>convertStoreToBytes\<close>, the shard catalogue fetcher
  \<open>fetchShardInfo\<close> and the gauge callback that \<open>CollectMetrics\<close> registers.
  Go strings are byte sequences, so they are values of \<^typ>\<open>string\<close> (lists of 8-bit
  characters). A Go function returning \<open>(T, error)\<close> returns a value of \<open>error + T\<close>
  here, and one returning only \<open>error\<close> a value of \<open>error option\<close> (\<open>None\<close> is \<open>nil\<close>).
\<close>

subsection \<open>Strings: package \<open>strings\<close>\<close>

text \<open>
  \<open>strings.TrimSpace\<close> removes leading and trailing white space as Unicode defines it
  (\<open>unicode.IsSpace\<close>). In a byte string these are the six ASCII characters
  \<open>\t \n \v \f \r\<close> and the space, and the UTF-8 encodings of U+0085, U+00A0, U+1680,
  U+2000 to U+200A, U+2028, U+2029, U+202F, U+205F and U+3000.
\<close>

definition asciiSpace :: "char \<Rightarrow> bool" where
  "asciiSpace c \<longleftrightarrow> c \<in> {CHR 0x09, CHR 0x0A, CHR 0x0B, CHR 0x0C, CHR 0x0D, CHR 0x20}"

definition unicodeSpace :: "string list" where
  "unicodeSpace =
     [[CHR 0xC2, CHR 0x85], [CHR 0xC2, CHR 0xA0], [CHR 0xE1, CHR 0x9A, CHR 0x80],
      [CHR 0xE2, CHR 0x80, CHR 0x80], [CHR 0xE2, CHR 0x80, CHR 0x81],
      [CHR 0xE2, CHR 0x80, CHR 0x82], [CHR 0xE2, CHR 0x80, CHR 0x83],
      [CHR 0xE2, CHR 0x80, CHR 0x84], [CHR 0xE2, CHR 0x80, CHR 0x85],
      [CHR 0xE2, CHR 0x80, CHR 0x86], [CHR 0xE2, CHR 0x80, CHR 0x87],
      [CHR 0xE2, CHR 0x80, CHR 0x88], [CHR 0xE2, CHR 0x80, CHR 0x89],
      [CHR 0xE2, CHR 0x80, CHR 0x8A], [CHR 0xE2, CHR 0x80, CHR 0xA8],
      [CHR 0xE2, CHR 0x80, CHR 0xA9], [CHR 0xE2, CHR 0x80, CHR 0xAF],
      [CHR 0xE2, CHR 0x81, CHR 0x9F], [CHR 0xE3, CHR 0x80, CHR 0x80]]"

text \<open>
  The number of bytes of the white space character a string starts with, \<open>0\<close> when it
  starts with none; \<open>table\<close> lists the multi-byte encodings.
\<close>

definition spaceLen :: "string list \<Rightarrow> string \<Rightarrow> nat" where
  "spaceLen table s =
     (case s of
        [] \<Rightarrow> 0
      | c # _ \<Rightarrow>
          if asciiSpace c then 1
          else (case find (\<lambda>w. take (length w) s = w) table of
                  Some w \<Rightarrow> length w
                | None \<Rightarrow> 0))"

function trimSpaces :: "string list \<Rightarrow> string \<Rightarrow> string" where
  "trimSpaces table s =
     (if s = [] \<or> spaceLen table s = 0 then s
      else trimSpaces table (drop (spaceLen table s) s))"
  by pat_completeness auto
termination
  by (relation "measure (\<lambda>(table, s). length s)") auto

declare trimSpaces.simps [simp del]

text \<open>
  Trimming on the right reads the string backwards, where a white space character shows
  as its encoding reversed.
\<close>

definition TrimSpace :: "string \<Rightarrow> string" where
  "TrimSpace s = rev (trimSpaces (map rev unicodeSpace) (rev (trimSpaces unicodeSpace s)))"

definition HasSuffix :: "string \<Rightarrow> string \<Rightarrow> bool" where
  "HasSuffix s suffix \<longleftrightarrow>
     length suffix \<le> length s \<and> drop (length s - length suffix) s = suffix"

definition TrimSuffix :: "string \<Rightarrow> string \<Rightarrow> string" where
  "TrimSuffix s suffix =
     (if HasSuffix s suffix then take (length s - length suffix) s else s)"

subsection \<open>The type \<open>float64\<close>\<close>

text \<open>
  An IEEE 754 binary64 value: \<open>Finite neg m e\<close> is \<open>m * 2 ^ e\<close>, negated when \<open>neg\<close>
  holds. The values of the format are the ones with \<open>m < 2 ^ 53\<close> and
  \<open>- 1074 \<le> e \<le> 971\<close>; each is written in one way only, with \<open>2 ^ 52 \<le> m\<close> (a normal
  number), or \<open>e = - 1074\<close> (a subnormal one), or \<open>m = 0\<close> and \<open>e = 0\<close> (a zero).
\<close>

datatype float64 = Finite bool nat int | Infinity bool | NaN

text \<open>The number of binary digits of \<open>n\<close>.\<close>

fun bitlen :: "nat \<Rightarrow> nat" where
  "bitlen n = (if n = 0 then 0 else Suc (bitlen (n div 2)))"

declare bitlen.simps [simp del]

text \<open>For \<open>n\<close> and \<open>d\<close> positive, the integer \<open>k\<close> with \<open>2 ^ k \<le> n / d < 2 ^ (k + 1)\<close>.\<close>

definition floorlog2 :: "nat \<Rightarrow> nat \<Rightarrow> int" where
  "floorlog2 n d =
     (let k = int (bitlen n) - int (bitlen d)
      in if (if 0 \<le> k then d * 2 ^ nat k \<le> n else d \<le> n * 2 ^ nat (- k)) then k else k - 1)"

text \<open>The integer nearest to \<open>n / d\<close>, the even one of the two when both are as near.\<close>

definition roundHalfEven :: "nat \<Rightarrow> nat \<Rightarrow> nat" where
  "roundHalfEven n d =
     (let q = n div d; r = n mod d
      in if 2 * r < d then q
         else if d < 2 * r then q + 1
         else if even q then q else q + 1)"

text \<open>
  The \<open>float64\<close> nearest to the rational \<open>n / d\<close> (IEEE 754 round to nearest, ties to even),
  with the sign \<open>neg\<close>; a value that rounds beyond the largest finite number gives an
  infinity.
\<close>

definition round64 :: "bool \<Rightarrow> nat \<Rightarrow> nat \<Rightarrow> float64" where
  "round64 neg n d =
     (if n = 0 then Finite neg 0 0
      else
        let e = max (floorlog2 n d - 52) (- 1074);
            m = (if 0 \<le> e then roundHalfEven n (d * 2 ^ nat e)
                 else roundHalfEven (n * 2 ^ nat (- e)) d);
            e' = (if m = 2 ^ 53 then e + 1 else e);
            m' = (if m = 2 ^ 53 then 2 ^ 52 else m)
        in if m' = 0 then Finite neg 0 0
           else if 971 < e' then Infinity neg
           else Finite neg m' e')"

text \<open>\<open>m * 2 ^ e\<close> as a fraction.\<close>

definition scale2 :: "nat \<Rightarrow> int \<Rightarrow> nat \<times> nat" where
  "scale2 m e = (if 0 \<le> e then (m * 2 ^ nat e, 1) else (m, 2 ^ nat (- e)))"

text \<open>The product \<open>x * y\<close> of two \<open>float64\<close> values: the exact product, rounded.\<close>

fun fmul :: "float64 \<Rightarrow> float64 \<Rightarrow> float64" where
  "fmul NaN _ = NaN"
| "fmul _ NaN = NaN"
| "fmul (Infinity s) (Infinity t) = Infinity (s \<noteq> t)"
| "fmul (Infinity s) (Finite t m e) = (if m = 0 then NaN else Infinity (s \<noteq> t))"
| "fmul (Finite s m e) (Infinity t) = (if m = 0 then NaN else Infinity (s \<noteq> t))"
| "fmul (Finite s m e) (Finite t m' e') =
     (case scale2 (m * m') (e + e') of (n, d) \<Rightarrow> round64 (s \<noteq> t) n d)"

text \<open>An integer constant of the source, converted to \<open>float64\<close>.\<close>

definition float64_const :: "nat \<Rightarrow> float64" where
  "float64_const n = round64 False n 1"

subsection \<open>Parsing numbers: \<open>strconv.ParseFloat\<close>\<close>

text \<open>
  \<open>strconv.NumError\<close>, the error of a failed conversion: the function, the string it was
  given, and \<open>strconv.ErrSyntax\<close> or \<open>strconv.ErrRange\<close>.
\<close>

datatype NumErr = ErrSyntax | ErrRange

record NumError =
  Func :: string
  Num :: string
  Err :: NumErr

definition syntaxError :: "string \<Rightarrow> NumError" where
  "syntaxError s = \<lparr>Func = ''ParseFloat'', Num = s, Err = ErrSyntax\<rparr>"

definition rangeError :: "string \<Rightarrow> NumError" where
  "rangeError s = \<lparr>Func = ''ParseFloat'', Num = s, Err = ErrRange\<rparr>"

definition byte :: "char \<Rightarrow> nat" where
  "byte c = of_char c"

definition isDigit :: "char \<Rightarrow> bool" where
  "isDigit c \<longleftrightarrow> byte CHR ''0'' \<le> byte c \<and> byte c \<le> byte CHR ''9''"

definition digitVal :: "char \<Rightarrow> nat" where
  "digitVal c = byte c - byte CHR ''0''"

text \<open>\<open>func lower(c byte) byte { return c | ('x' - 'X') }\<close>\<close>

definition lower :: "char \<Rightarrow> nat" where
  "lower c = or (byte c) (byte CHR ''x'' - byte CHR ''X'')"

definition isHexLetter :: "char \<Rightarrow> bool" where
  "isHexLetter c \<longleftrightarrow> byte CHR ''a'' \<le> lower c \<and> lower c \<le> byte CHR ''f''"

definition hexVal :: "char \<Rightarrow> nat" where
  "hexVal c = lower c - byte CHR ''a'' + 10"

text \<open>
  \<open>commonPrefixLenIgnoreCase(s, prefix)\<close>: how many leading bytes of \<open>s\<close> match those of
  the lower-case \<open>prefix\<close>, after \<open>if 'A' <= c && c <= 'Z' { c += 'a' - 'A' }\<close>.
\<close>

definition foldCase :: "char \<Rightarrow> nat" where
  "foldCase c =
     (if byte CHR ''A'' \<le> byte c \<and> byte c \<le> byte CHR ''Z''
      then byte c + (byte CHR ''a'' - byte CHR ''A'') else byte c)"

fun commonPrefixLenIgnoreCase :: "string \<Rightarrow> string \<Rightarrow> nat" where
  "commonPrefixLenIgnoreCase (c # s) (p # prefix) =
     (if foldCase c = byte p then Suc (commonPrefixLenIgnoreCase s prefix) else 0)"
| "commonPrefixLenIgnoreCase _ _ = 0"

text \<open>
  \<open>special\<close>: the strings \<open>inf\<close> and \<open>infinity\<close>, with a sign or none, and \<open>nan\<close>, in any
  letter case. The result is the value and the number of bytes read.
\<close>

definition specialInf :: "bool \<Rightarrow> nat \<Rightarrow> string \<Rightarrow> (float64 \<times> nat) option" where
  "specialInf neg nsign s =
     (let n = commonPrefixLenIgnoreCase s ''infinity'';
          n = (if 3 < n \<and> n < 8 then 3 else n)
      in if n = 3 \<or> n = 8 then Some (Infinity neg, nsign + n) else None)"

definition special :: "string \<Rightarrow> (float64 \<times> nat) option" where
  "special s =
     (case s of
        [] \<Rightarrow> None
      | c # rest \<Rightarrow>
          if c = CHR ''+'' \<or> c = CHR ''-'' then specialInf (c = CHR ''-'') 1 rest
          else if c = CHR ''i'' \<or> c = CHR ''I'' then specialInf False 0 s
          else if c = CHR ''n'' \<or> c = CHR ''N'' then
            (if commonPrefixLenIgnoreCase s ''nan'' = 3 then Some (NaN, 3) else None)
          else None)"

text \<open>
  The digits of the mantissa, in base 10 or 16, with at most one point and with
  underscores passed over: the number the digits spell without the point, how many of
  them follow the point, whether a digit was seen, and the rest of the string.
\<close>

fun readMantissa ::
  "nat \<Rightarrow> string \<Rightarrow> nat \<Rightarrow> nat \<Rightarrow> bool \<Rightarrow> bool \<Rightarrow> nat \<times> nat \<times> bool \<times> string" where
  "readMantissa base [] mantissa nfrac sawdot sawdigits = (mantissa, nfrac, sawdigits, [])"
| "readMantissa base (c # cs) mantissa nfrac sawdot sawdigits =
     (if c = CHR ''_'' then readMantissa base cs mantissa nfrac sawdot sawdigits
      else if c = CHR ''.'' then
        (if sawdot then (mantissa, nfrac, sawdigits, c # cs)
         else readMantissa base cs mantissa nfrac True sawdigits)
      else if isDigit c then
        readMantissa base cs (mantissa * base + digitVal c)
          (if sawdot then nfrac + 1 else nfrac) sawdot True
      else if base = 16 \<and> isHexLetter c then
        readMantissa base cs (mantissa * 16 + hexVal c)
          (if sawdot then nfrac + 1 else nfrac) sawdot True
      else (mantissa, nfrac, sawdigits, c # cs))"

text \<open>
  The digits of the exponent: \<open>if e < 10000 { e = e*10 + int(s[i]) - '0' }\<close>, so that a
  long exponent cannot overflow.
\<close>

fun readExpDigits :: "string \<Rightarrow> nat \<Rightarrow> nat \<times> string" where
  "readExpDigits [] e = (e, [])"
| "readExpDigits (c # cs) e =
     (if c = CHR ''_'' then readExpDigits cs e
      else if isDigit c then readExpDigits cs (if e < 10000 then e * 10 + digitVal c else e)
      else (e, c # cs))"

text \<open>What follows the exponent character: a sign or none, then a digit at least.\<close>

definition readExponent :: "string \<Rightarrow> (int \<times> string) option" where
  "readExponent s =
     (case s of
        [] \<Rightarrow> None
      | c # cs \<Rightarrow>
          let esign = (if c = CHR ''-'' then - 1 else 1);
              ds = (if c = CHR ''+'' \<or> c = CHR ''-'' then cs else s)
          in (case ds of
                [] \<Rightarrow> None
              | d # _ \<Rightarrow>
                  if \<not> isDigit d then None
                  else (case readExpDigits ds 0 of (e, rest) \<Rightarrow> Some (esign * int e, rest))))"

text \<open>
  \<open>underscoreOK\<close>: an underscore may stand only between two digits, or between the base
  prefix and a digit.
\<close>

datatype saw = SawStart | SawDigit | SawUnderscore | SawOther

fun underscoreLoop :: "bool \<Rightarrow> saw \<Rightarrow> string \<Rightarrow> bool" where
  "underscoreLoop hex saw [] \<longleftrightarrow> saw \<noteq> SawUnderscore"
| "underscoreLoop hex saw (c # cs) \<longleftrightarrow>
     (if isDigit c \<or> hex \<and> isHexLetter c then underscoreLoop hex SawDigit cs
      else if c = CHR ''_'' then (saw = SawDigit \<and> underscoreLoop hex SawUnderscore cs)
      else if saw = SawUnderscore then False
      else underscoreLoop hex SawOther cs)"

definition dropSign :: "string \<Rightarrow> string" where
  "dropSign s = (case s of [] \<Rightarrow> [] | c # cs \<Rightarrow> if c = CHR ''+'' \<or> c = CHR ''-'' then cs else s)"

definition underscoreOK :: "string \<Rightarrow> bool" where
  "underscoreOK s =
     (case dropSign s of
        c # x # cs \<Rightarrow>
          if c = CHR ''0'' \<and> lower x \<in> {byte CHR ''b'', byte CHR ''o'', byte CHR ''x''}
          then underscoreLoop (lower x = byte CHR ''x'') SawDigit cs
          else underscoreLoop False SawStart (c # x # cs)
      | cs \<Rightarrow> underscoreLoop False SawStart cs)"

text \<open>
  \<open>readFloat\<close>: a sign or none, the prefix \<open>0x\<close> or none, the mantissa, and the exponent
  (after \<open>e\<close> in base 10, where it may be missing, after \<open>p\<close> in base 16, where it may
  not). The result is the sign, the base, the integer the digits spell, the exponent of
  10 (of 2 in base 16) that scales it, and the rest of the string; \<open>None\<close> when the
  string does not start with a number.
\<close>

definition readFloat :: "string \<Rightarrow> (bool \<times> bool \<times> nat \<times> int \<times> string) option" where
  "readFloat s =
     (let neg = (case s of [] \<Rightarrow> False | c # _ \<Rightarrow> c = CHR ''-'');
          s1 = dropSign s;
          hex = (case s1 of c # x # _ # _ \<Rightarrow> c = CHR ''0'' \<and> lower x = byte CHR ''x'' | _ \<Rightarrow> False);
          base = (if hex then 16 else 10)
      in case readMantissa base (if hex then drop 2 s1 else s1) 0 0 False False of
           (mantissa, nfrac, sawdigits, rest) \<Rightarrow>
             if \<not> sawdigits then None
             else
               let dp = - int (if hex then 4 * nfrac else nfrac);
                   expChar = (if hex then CHR ''p'' else CHR ''e'')
               in (case rest of
                     [] \<Rightarrow> if hex then None else Some (neg, hex, mantissa, dp, [])
                   | c # cs \<Rightarrow>
                       if lower c = byte expChar then
                         (case readExponent cs of
                            None \<Rightarrow> None
                          | Some (e, rest') \<Rightarrow> Some (neg, hex, mantissa, dp + e, rest'))
                       else if hex then None
                       else Some (neg, hex, mantissa, dp, rest)))"

text \<open>\<open>mantissa * base ^ exp\<close> as a fraction, the base being 10, or 2 for a hexadecimal number.\<close>

definition scaled :: "bool \<Rightarrow> nat \<Rightarrow> int \<Rightarrow> nat \<times> nat" where
  "scaled hex mantissa exp =
     (let b = (if hex then 2 else 10)
      in if 0 \<le> exp then (mantissa * b ^ nat exp, 1) else (mantissa, b ^ nat (- exp)))"

text \<open>
  \<open>strconv.ParseFloat(s, 64)\<close>. The library is not code of this package; this is its
  documented behaviour. The whole string must be a number of Go's syntax for
  floating-point literals, with a sign or none, or one of the special values; otherwise
  the error is \<open>ErrSyntax\<close>. The result is the \<open>float64\<close> nearest to the number, and the
  error \<open>ErrRange\<close> when that is an infinity. The library reads 19 digits and rounds by
  several algorithms that all give the nearest value; the model keeps all digits and
  rounds once.
\<close>

definition ParseFloat :: "string \<Rightarrow> NumError + float64" where
  "ParseFloat s =
     (case special s of
        Some (f, n) \<Rightarrow> if n = length s then Inr f else Inl (syntaxError s)
      | None \<Rightarrow>
          (case readFloat s of
             None \<Rightarrow> Inl (syntaxError s)
           | Some (neg, hex, mantissa, exp, rest) \<Rightarrow>
               if rest \<noteq> [] \<or> \<not> underscoreOK s then Inl (syntaxError s)
               else
                 (case scaled hex mantissa exp of
                    (n, d) \<Rightarrow>
                      (case round64 neg n d of
                         Infinity _ \<Rightarrow> Inl (rangeError s)
                       | f \<Rightarrow> Inr f))))"

subsection \<open>Records, requests and errors\<close>

text \<open>\<open>type ShardInfo struct\<close>: one row of the shard catalogue, every field a string.\<close>

record ShardInfo =
  Index :: string
  Shard :: string
  Prirep :: string
  State :: string
  Docs :: string
  Store :: string
  IP :: string
  Node :: string

text \<open>An error of a library call (the URL parser, the transport, the JSON decoder): its message.\<close>

type_synonym lib_error = string

text \<open>
  The errors the package builds with \<open>fmt.Errorf\<close>, one constructor for each format
  string; the argument is what the verb \<open>%w\<close> or \<open>%s\<close> of the format receives.
  \<^item> \<open>RequestError\<close>: \<open>"failed to create request: %w"\<close>
  \<^item> \<open>FetchError\<close>: \<open>"failed to execute request: %w"\<close>
  \<^item> \<open>DecodeError\<close>: \<open>"failed to decode response: %w"\<close>
  \<^item> \<open>UnknownUnit\<close>: \<open>"unknown size unit in: %s"\<close>
  \<^item> \<open>MalformedNumber\<close>: \<open>"failed to parse size value: %w"\<close>
  \<^item> \<open>FetchShardInfoError\<close>: \<open>"failed to fetch shard info: %w"\<close>
  \<^item> \<open>ConvertStoreError\<close>: \<open>"failed to convert store size: %w"\<close>
\<close>

datatype error =
    RequestError lib_error
  | FetchError lib_error
  | DecodeError lib_error
  | UnknownUnit string
  | MalformedNumber NumError
  | FetchShardInfoError error
  | ConvertStoreError error

subsection \<open>convertStoreToBytes\<close>

definition convertStoreToBytes :: "string \<Rightarrow> error + float64" where
  "convertStoreToBytes store0 =
     (let store = TrimSpace store0
      in if store = [] then Inr (float64_const 0)
         else
           (case (if HasSuffix store ''kb'' then
                    Some (float64_const 1024, TrimSuffix store ''kb'')
                  else if HasSuffix store ''mb'' then
                    Some (float64_const (1024 * 1024), TrimSuffix store ''mb'')
                  else if HasSuffix store ''gb'' then
                    Some (float64_const (1024 * 1024 * 1024), TrimSuffix store ''gb'')
                  else None) of
              None \<Rightarrow> Inl (UnknownUnit store)
            | Some (multiplier, store') \<Rightarrow>
                (case ParseFloat store' of
                   Inl err \<Rightarrow> Inl (MalformedNumber err)
                 | Inr v \<Rightarrow> Inr (fmul v multiplier))))"

subsection \<open>The HTTP client and the JSON decoder\<close>

text \<open>\<open>http.Request\<close>, as far as the fetcher sets it: the method and the URL.\<close>

record Request =
  Method :: string
  URL :: string

text \<open>
  The collaborators of the fetcher, which are not code of the package:
  \<^item> \<open>UrlError\<close>: the error with which \<open>http.NewRequestWithContext\<close> rejects a URL
    (\<open>None\<close> when it accepts it);
  \<^item> \<open>Do\<close>: \<open>c.client.Do(req)\<close>, the transport. Its answer may depend on the requests
    sent before, which are its first argument; it yields a response of type \<open>'r\<close> or a
    transport error;
  \<^item> \<open>Decode\<close>: \<open>json.NewDecoder(resp.Body).Decode(&shards)\<close>, which reads the body of a
    response into a list of records or fails.
\<close>

record 'r Env =
  UrlError :: "string \<Rightarrow> lib_error option"
  Do :: "Request list \<Rightarrow> Request \<Rightarrow> lib_error + 'r"
  Decode :: "'r \<Rightarrow> lib_error + ShardInfo list"

text \<open>
  \<open>http.NewRequestWithContext(ctx, method, url, nil)\<close> with a context that is not nil and
  a valid method: it fails exactly when the URL does not parse.
\<close>

definition NewRequestWithContext :: "'r Env \<Rightarrow> string \<Rightarrow> string \<Rightarrow> lib_error + Request" where
  "NewRequestWithContext env method url =
     (case UrlError env url of
        Some err \<Rightarrow> Inl err
      | None \<Rightarrow> Inr \<lparr>Method = method, URL = url\<rparr>)"

subsection \<open>fetchShardInfo\<close>

text \<open>\<open>fmt.Sprintf("%s/_cat/shards/%s?format=json", c.endpoint, index)\<close>\<close>

definition shardsURL :: "string \<Rightarrow> string \<Rightarrow> string" where
  "shardsURL endpoint index = endpoint @ ''/_cat/shards/'' @ index @ ''?format=json''"

text \<open>
  The body of the loop over the index names, for one index. The second component is the
  list of the requests handed to the transport so far, in order: \<open>sent\<close>, and after it
  the request of this iteration once \<open>c.client.Do\<close> has been called.
\<close>

definition fetchIndex ::
  "'r Env \<Rightarrow> string \<Rightarrow> string \<Rightarrow> Request list \<Rightarrow> (error + ShardInfo list) \<times> Request list" where
  "fetchIndex env endpoint index sent =
     (case NewRequestWithContext env ''GET'' (shardsURL endpoint index) of
        Inl err \<Rightarrow> (Inl (RequestError err), sent)
      | Inr req \<Rightarrow>
          (case Do env sent req of
             Inl err \<Rightarrow> (Inl (FetchError err), sent @ [req])
           | Inr resp \<Rightarrow>
               (case Decode env resp of
                  Inl err \<Rightarrow> (Inl (DecodeError err), sent @ [req])
                | Inr shards \<Rightarrow> (Inr shards, sent @ [req]))))"

text \<open>
  \<open>for _, index := range indices { ... allShards = append(allShards, shards...) }\<close>:
  every \<open>return nil, fmt.Errorf(...)\<close> of the body leaves the loop and the function.
\<close>

fun fetchLoop ::
  "'r Env \<Rightarrow> string \<Rightarrow> string list \<Rightarrow> ShardInfo list \<Rightarrow> Request list
     \<Rightarrow> (error + ShardInfo list) \<times> Request list" where
  "fetchLoop env endpoint [] allShards sent = (Inr allShards, sent)"
| "fetchLoop env endpoint (index # rest) allShards sent =
     (case fetchIndex env endpoint index sent of
        (Inl err, sent') \<Rightarrow> (Inl err, sent')
      | (Inr shards, sent') \<Rightarrow> fetchLoop env endpoint rest (allShards @ shards) sent')"

definition indices :: "string list" where
  "indices = [''otlp-metrics'', ''otlp-logs'']"

definition fetchShardInfo ::
  "'r Env \<Rightarrow> string \<Rightarrow> Request list \<Rightarrow> (error + ShardInfo list) \<times> Request list" where
  "fetchShardInfo env endpoint sent = fetchLoop env endpoint indices [] sent"

subsection \<open>The callback of CollectMetrics\<close>

text \<open>
  One call \<open>o.ObserveFloat64(shardStoreSize, sizeInBytes, metric.WithAttributes(attrs...))\<close>:
  the number observed and the attributes, as pairs of key and value.
\<close>

record Observation =
  Observed :: float64
  Attributes :: "(string \<times> string) list"

definition attrs :: "ShardInfo \<Rightarrow> (string \<times> string) list" where
  "attrs shard =
     [(''index'', Index shard), (''shard'', Shard shard), (''prirep'', Prirep shard),
      (''state'', State shard), (''node'', Node shard), (''ip'', IP shard)]"

text \<open>
  \<open>for _, shard := range shards { ... }\<close> of the callback. The observer \<open>o\<close> is the list
  of the observations made on it so far; the loop returns the callback's error and the
  observer as it leaves it.
\<close>

fun observeLoop :: "ShardInfo list \<Rightarrow> Observation list \<Rightarrow> error option \<times> Observation list" where
  "observeLoop [] observer = (None, observer)"
| "observeLoop (shard # rest) observer =
     (case convertStoreToBytes (Store shard) of
        Inl err \<Rightarrow> (Some (ConvertStoreError err), observer)
      | Inr sizeInBytes \<Rightarrow>
          observeLoop rest
            (observer @ [\<lparr>Observed = sizeInBytes, Attributes = attrs shard\<rparr>]))"

text \<open>
  The function that \<open>CollectMetrics\<close> passes to \<open>c.meter.RegisterCallback\<close>: its error,
  the observer, and the requests sent.
\<close>

definition callback ::
  "'r Env \<Rightarrow> string \<Rightarrow> Request list \<Rightarrow> Observation list
     \<Rightarrow> error option \<times> Observation list \<times> Request list" where
  "callback env endpoint sent observer =
     (case fetchShardInfo env endpoint sent of
        (Inl err, sent') \<Rightarrow> (Some (FetchShardInfoError err), observer, sent')
      | (Inr shards, sent') \<Rightarrow>
          (case observeLoop shards observer of
             (err, observer') \<Rightarrow> (err, observer', sent')))"

subsection \<open>Notions of the specification\<close>

text \<open>
  One white space character, as the bytes that encode it: an ASCII one, or one of the
  multi-byte encodings.
\<close>

definition spaceRune :: "string \<Rightarrow> bool" where
  "spaceRune w \<longleftrightarrow> (case w of [c] \<Rightarrow> asciiSpace c | _ \<Rightarrow> False) \<or> w \<in> set unicodeSpace"



text \<open>
  The request the specification asks for, for one index name: a \<open>GET\<close> of
  \<open>{endpoint}/_cat/shards/{indexName}?format=json\<close>.
\<close>

definition requestFor :: "string \<Rightarrow> string \<Rightarrow> Request" where
  "requestFor endpoint index =
     \<lparr>Method = ''GET'', URL = endpoint @ ''/_cat/shards/'' @ index @ ''?format=json''\<rparr>"

text \<open>
  The record sequences that the responses decode to, one for each index name, when the
  requests are sent in the order of the names after the requests \<open>sent\<close>.
\<close>

fun decoded :: "'r Env \<Rightarrow> string \<Rightarrow> string list \<Rightarrow> Request list \<Rightarrow> ShardInfo list list" where
  "decoded env endpoint [] sent = []"
| "decoded env endpoint (index # rest) sent =
     (case Do env sent (requestFor endpoint index) of
        Inl _ \<Rightarrow> []
      | Inr resp \<Rightarrow> (case Decode env resp of Inl _ \<Rightarrow> [] | Inr shards \<Rightarrow> shards))
     # decoded env endpoint rest (sent @ [requestFor endpoint index])"

text \<open>
  The observation the specification asks for, for one record: the value is the parsed
  store size, the labels are copied from the record.
\<close>

definition observationOf :: "ShardInfo \<Rightarrow> Observation \<Rightarrow> bool" where
  "observationOf shard obs \<longleftrightarrow>
     convertStoreToBytes (Store shard) = Inr (Observed obs) \<and>
     Attributes obs =
       [(''index'', Index shard), (''shard'', Shard shard), (''prirep'', Prirep shard),
        (''state'', State shard), (''node'', Node shard), (''ip'', IP shard)]"

subsection \<open>An example cluster\<close>

text \<open>
  A transport that answers every request with a body, found by the URL in a table (an
  unknown URL is refused), and a decoder that reads the bodies of a second table (and
  reports the end of the input on any other).
\<close>

definition stubEnv ::
  "(string \<times> string) list \<Rightarrow> (string \<times> ShardInfo list) list \<Rightarrow> string Env" where
  "stubEnv bodies rows =
     \<lparr>UrlError = (\<lambda>url. None),
      Do = (\<lambda>sent req.
        case map_of bodies (URL req) of
          None \<Rightarrow> Inl ''connection refused''
        | Some body \<Rightarrow> Inr body),
      Decode = (\<lambda>body.
        case map_of rows body of
          None \<Rightarrow> Inl ''EOF''
        | Some shards \<Rightarrow> Inr shards)\<rparr>"

definition localhost :: string where
  "localhost = ''http://localhost:3000''"

definition metricsURL :: string where
  "metricsURL = ''http://localhost:3000/_cat/shards/otlp-metrics?format=json''"

definition logsURL :: string where
  "logsURL = ''http://localhost:3000/_cat/shards/otlp-logs?format=json''"

definition shard0 :: ShardInfo where
  "shard0 =
     \<lparr>Index = ''otlp-metrics'', Shard = ''0'', Prirep = ''p'', State = ''STARTED'',
      Docs = ''120'', Store = ''512kb'', IP = ''10.0.0.1'', Node = ''node-1''\<rparr>"

definition shard1 :: ShardInfo where
  "shard1 =
     \<lparr>Index = ''otlp-logs'', Shard = ''0'', Prirep = ''p'', State = ''STARTED'',
      Docs = ''7'', Store = ''1.5gb'', IP = ''10.0.0.2'', Node = ''node-2''\<rparr>"


definition observation0 :: Observation where
  "observation0 =
     \<lparr>Observed = float64_const 524288,
      Attributes =
        [(''index'', ''otlp-metrics''), (''shard'', ''0''), (''prirep'', ''p''),
         (''state'', ''STARTED''), (''node'', ''node-1''), (''ip'', ''10.0.0.1'')]\<rparr>"

definition observation1 :: Observation where
  "observation1 =
     \<lparr>Observed = float64_const 1610612736,
      Attributes =
        [(''index'', ''otlp-logs''), (''shard'', ''0''), (''prirep'', ''p''),
         (''state'', ''STARTED''), (''node'', ''node-2''), (''ip'', ''10.0.0.2'')]\<rparr>"

text \<open>Both indices answer: one record each.\<close>

definition healthy :: "string Env" where
  "healthy = stubEnv [(metricsURL, ''m''), (logsURL, ''l'')] [(''m'', [shard0]), (''l'', [shard1])]"


text \<open>The body of the second index does not decode.\<close>

definition secondBroken :: "string Env" where
  "secondBroken = stubEnv [(metricsURL, ''m''), (logsURL, '''')] [(''m'', [shard0])]"



section \<open>Properties\<close>

subsection \<open>Evaluation\<close>

lemmas string_eval =
  asciiSpace_def unicodeSpace_def spaceLen_def trimSpaces.simps TrimSpace_def HasSuffix_def
  TrimSuffix_def

lemma bitlen_numeral:
  "bitlen 0 = 0"
  "bitlen 1 = 1"
  "bitlen (Suc 0) = 1"
  "bitlen (numeral Num.One) = 1"
  "bitlen (numeral (Num.Bit0 k)) = bitlen (numeral k) + 1"
  "bitlen (numeral (Num.Bit1 k)) = bitlen (numeral k) + 1"
  by (subst bitlen.simps, simp add: bitlen.simps numeral_Bit0_div_2 numeral_Bit1_div_2)+

lemmas float_eval =
  bitlen_numeral floorlog2_def roundHalfEven_def round64_def scale2_def float64_const_def Let_def

lemmas parse_eval =
  syntaxError_def rangeError_def byte_def isDigit_def digitVal_def lower_def foldCase_def
  isHexLetter_def hexVal_def specialInf_def special_def readExponent_def dropSign_def
  underscoreOK_def readFloat_def scaled_def ParseFloat_def

lemmas convert_eval = convertStoreToBytes_def string_eval parse_eval float_eval

lemmas fetch_eval =
  stubEnv_def localhost_def metricsURL_def logsURL_def NewRequestWithContext_def shardsURL_def
  fetchIndex_def indices_def fetchShardInfo_def requestFor_def

lemma convert_512kb: "convertStoreToBytes ''512kb'' = Inr (float64_const 524288)"
  by (simp add: convert_eval)

lemma convert_1_5gb: "convertStoreToBytes ''1.5gb'' = Inr (float64_const 1610612736)"
  by (simp add: convert_eval)


subsection \<open>The fetcher\<close>

lemma fetchIndex_Inr:
  assumes "fetchIndex env endpoint index sent = (Inr shards, sent')"
  shows "sent' = sent @ [requestFor endpoint index]"
    and "\<exists>resp. Do env sent (requestFor endpoint index) = Inr resp \<and> Decode env resp = Inr shards"
  using assms
  by (auto simp: fetchIndex_def NewRequestWithContext_def requestFor_def shardsURL_def
      split: option.splits sum.splits)

lemma fetchIndex_Inl:
  assumes "fetchIndex env endpoint index sent = (Inl err, sent')"
  shows "sent' = sent \<or> sent' = sent @ [requestFor endpoint index]"
  using assms
  by (auto simp: fetchIndex_def NewRequestWithContext_def requestFor_def shardsURL_def
      split: option.splits sum.splits)

lemma fetchIndex_fails_iff:
  "fetchIndex env endpoint index sent = (Inl err, sent') \<longleftrightarrow>
     (\<exists>e. UrlError env (shardsURL endpoint index) = Some e \<and> err = RequestError e \<and> sent' = sent) \<or>
     UrlError env (shardsURL endpoint index) = None \<and>
     sent' = sent @ [requestFor endpoint index] \<and>
     ((\<exists>e. Do env sent (requestFor endpoint index) = Inl e \<and> err = FetchError e) \<or>
      (\<exists>resp e. Do env sent (requestFor endpoint index) = Inr resp \<and> Decode env resp = Inl e \<and>
         err = DecodeError e))"
  by (auto simp: fetchIndex_def NewRequestWithContext_def requestFor_def shardsURL_def
      split: option.splits sum.splits)



lemma fetchLoop_append:
  "fetchLoop env endpoint (xs @ ys) acc sent =
     (case fetchLoop env endpoint xs acc sent of
        (Inl err, sent') \<Rightarrow> (Inl err, sent')
      | (Inr acc', sent') \<Rightarrow> fetchLoop env endpoint ys acc' sent')"
proof (induction xs arbitrary: acc sent)
  case Nil
  show ?case by simp
next
  case (Cons x xs)
  show ?case
  proof (cases "fetchIndex env endpoint x sent")
    case (Pair r sent1)
    then show ?thesis
      using Cons.IH by (cases r) simp_all
  qed
qed

lemma fetchLoop_success:
  "fetchLoop env endpoint names acc sent = (Inr shards, sent') \<Longrightarrow>
     shards = acc @ concat (decoded env endpoint names sent) \<and>
     sent' = sent @ map (requestFor endpoint) names"
proof (induction names arbitrary: acc sent)
  case Nil
  then show ?case by simp
next
  case (Cons index rest)
  obtain r sent1 where step: "fetchIndex env endpoint index sent = (r, sent1)"
    by (cases "fetchIndex env endpoint index sent")
  show ?case
  proof (cases r)
    case (Inl err)
    with step Cons.prems show ?thesis by simp
  next
    case (Inr got)
    with step Cons.prems
    have loop: "fetchLoop env endpoint rest (acc @ got) sent1 = (Inr shards, sent')"
      by simp
    from step Inr have sent1: "sent1 = sent @ [requestFor endpoint index]"
      and "\<exists>resp. Do env sent (requestFor endpoint index) = Inr resp \<and> Decode env resp = Inr got"
      using fetchIndex_Inr [of env endpoint index sent got sent1] by simp_all
    then obtain resp where resp: "Do env sent (requestFor endpoint index) = Inr resp"
      "Decode env resp = Inr got"
      by blast
    from Cons.IH [OF loop] sent1 resp show ?thesis
      by simp
  qed
qed

lemma healthy_metrics:
  "fetchIndex healthy localhost ''otlp-metrics'' [] = (Inr [shard0], [requestFor localhost ''otlp-metrics''])"
  by (simp add: healthy_def fetch_eval)

lemma healthy_logs:
  "fetchIndex healthy localhost ''otlp-logs'' [requestFor localhost ''otlp-metrics''] =
     (Inr [shard1], [requestFor localhost ''otlp-metrics'', requestFor localhost ''otlp-logs''])"
  by (simp add: healthy_def fetch_eval)

lemma healthy_fetch:
  "fetchShardInfo healthy localhost [] =
     (Inr [shard0, shard1], [requestFor localhost ''otlp-metrics'', requestFor localhost ''otlp-logs''])"
  by (simp add: fetchShardInfo_def indices_def healthy_metrics healthy_logs)

lemma secondBroken_first:
  "fetchIndex secondBroken localhost ''otlp-metrics'' [] =
     (Inr [shard0], [requestFor localhost ''otlp-metrics''])"
  by (simp add: secondBroken_def fetch_eval)

lemma secondBroken_metrics:
  "fetchLoop secondBroken localhost [''otlp-metrics''] [] [] =
     (Inr [shard0], [requestFor localhost ''otlp-metrics''])"
  by (simp add: secondBroken_first)

lemma secondBroken_logs:
  "fetchIndex secondBroken localhost ''otlp-logs'' [requestFor localhost ''otlp-metrics''] =
     (Inl (DecodeError ''EOF''),
      [requestFor localhost ''otlp-metrics'', requestFor localhost ''otlp-logs''])"
  by (simp add: secondBroken_def fetch_eval)




text \<open>
  Claim C3. The fetcher sends its requests one after the other, in the order of the index
  names, and the first index that fails (its request cannot be built, the transport
  fails, or the body does not decode) ends the call: when the names \<open>earlier\<close> have been
  fetched and the iteration for \<open>index\<close> fails with \<open>err\<close>, the result is that error and
  no record, whatever \<open>earlier\<close> gave; the requests sent are those of \<open>earlier\<close>, in
  order, and at most the one of \<open>index\<close>, and none for the names \<open>later\<close>.
  \<open>fetchShardInfo\<close> is this loop over the two configured names.
\<close>

theorem fetch_aborts_at_first_failure:
  assumes "fetchLoop env endpoint earlier [] sent = (Inr fetched, sent1)"
    and "fetchIndex env endpoint index sent1 = (Inl err, sent2)"
  shows "fetchLoop env endpoint (earlier @ index # later) [] sent = (Inl err, sent2) \<and>
         sent1 = sent @ map (requestFor endpoint) earlier \<and>
         (sent2 = sent1 \<or> sent2 = sent1 @ [requestFor endpoint index])"
proof -
  have "fetchLoop env endpoint (earlier @ index # later) [] sent = (Inl err, sent2)"
    using assms by (simp add: fetchLoop_append)
  moreover have "sent1 = sent @ map (requestFor endpoint) earlier"
    using fetchLoop_success [OF assms(1)] by simp
  moreover have "sent2 = sent1 \<or> sent2 = sent1 @ [requestFor endpoint index]"
    using fetchIndex_Inl [OF assms(2)] .
  ultimately show ?thesis by blast
qed

theorem fetch_aborts_at_first_failure_witness:
  "fetchShardInfo secondBroken localhost [] =
     (Inl (DecodeError ''EOF''),
      [requestFor localhost ''otlp-metrics'', requestFor localhost ''otlp-logs''])"
  using fetch_aborts_at_first_failure [OF secondBroken_metrics secondBroken_logs, of "[]"]
  by (simp add: fetchShardInfo_def indices_def)

text \<open>
  Claim C7. When the fetcher succeeds, its result is the concatenation of the record
  sequences decoded for the index names, in the order of the names and, for each name, in
  the order of the response; and the requests it has sent are one \<open>GET\<close> of
  \<open>{endpoint}/_cat/shards/{indexName}?format=json\<close> for each name, in that order.
  \<open>fetchShardInfo\<close> is this loop over the two configured names.
\<close>

theorem fetch_concatenates_in_order:
  assumes "fetchLoop env endpoint names [] sent = (Inr shards, sent')"
  shows "shards = concat (decoded env endpoint names sent) \<and>
         sent' = sent @ map (requestFor endpoint) names"
  using fetchLoop_success [OF assms] by simp

theorem fetch_concatenates_in_order_witness:
  "fetchShardInfo healthy localhost [] =
     (Inr [shard0, shard1],
      [\<lparr>Method = ''GET'', URL = ''http://localhost:3000/_cat/shards/otlp-metrics?format=json''\<rparr>,
       \<lparr>Method = ''GET'', URL = ''http://localhost:3000/_cat/shards/otlp-logs?format=json''\<rparr>]) \<and>
   [shard0, shard1] = concat (decoded healthy localhost indices [])"
proof -
  have loop: "fetchLoop healthy localhost indices [] [] =
      (Inr [shard0, shard1], [requestFor localhost ''otlp-metrics'', requestFor localhost ''otlp-logs''])"
    using healthy_fetch by (simp add: fetchShardInfo_def)
  show ?thesis
    using fetch_concatenates_in_order [OF loop] healthy_fetch
    by (simp add: requestFor_def localhost_def)
qed




subsection \<open>The callback\<close>

lemma observationOf_made:
  "convertStoreToBytes (Store shard) = Inr v \<Longrightarrow>
     observationOf shard \<lparr>Observed = v, Attributes = attrs shard\<rparr>"
  by (simp add: observationOf_def attrs_def)

lemma observeLoop_success:
  "observeLoop shards observer = (None, observer') \<Longrightarrow>
     \<exists>made. observer' = observer @ made \<and> list_all2 observationOf shards made"
proof (induction shards arbitrary: observer)
  case Nil
  then show ?case by simp
next
  case (Cons shard rest)
  show ?case
  proof (cases "convertStoreToBytes (Store shard)")
    case (Inl err)
    with Cons.prems show ?thesis by simp
  next
    case (Inr v)
    let ?obs = "\<lparr>Observed = v, Attributes = attrs shard\<rparr>"
    from Inr Cons.prems have "observeLoop rest (observer @ [?obs]) = (None, observer')"
      by simp
    from Cons.IH [OF this] obtain made where
      made: "observer' = (observer @ [?obs]) @ made" "list_all2 observationOf rest made"
      by blast
    have "observer' = observer @ (?obs # made)"
      using made(1) by simp
    moreover have "list_all2 observationOf (shard # rest) (?obs # made)"
      using made(2) observationOf_made [OF Inr] by simp
    ultimately show ?thesis by blast
  qed
qed


lemma callback_fetch_failure:
  "fetchShardInfo env endpoint sent = (Inl err, sent') \<Longrightarrow>
     callback env endpoint sent observer = (Some (FetchShardInfoError err), observer, sent')"
  by (simp add: callback_def)

lemma fetchShardInfo_two:
  assumes "fetchIndex env endpoint ''otlp-metrics'' sent = (Inr first, sent1)"
    and "fetchIndex env endpoint ''otlp-logs'' sent1 = (Inr second, sent2)"
  shows "fetchShardInfo env endpoint sent = (Inr (first @ second), sent2)"
  using assms by (simp add: fetchShardInfo_def indices_def)

lemma observationOf_shard0: "observationOf shard0 observation0"
  by (simp add: observationOf_def shard0_def observation0_def convert_512kb)

lemma observationOf_shard1: "observationOf shard1 observation1"
  by (simp add: observationOf_def shard1_def observation1_def convert_1_5gb)

lemma healthy_callback:
  "callback healthy localhost [] [] =
     (None, [observation0, observation1],
      [requestFor localhost ''otlp-metrics'', requestFor localhost ''otlp-logs''])"
  by (simp add: callback_def healthy_fetch shard0_def shard1_def observation0_def
      observation1_def attrs_def convert_512kb convert_1_5gb)





text \<open>
  Claim C5. When the fetch returns the records \<open>first\<close> for the first configured index
  and \<open>second\<close> for the second, and the callback returns no error, the callback has made
  as many observations as there are records, one for each record in the order of the
  fetch: its value is \<open>convertStoreToBytes\<close> of the store size of the record, its labels
  \<open>index\<close>, \<open>shard\<close>, \<open>prirep\<close>, \<open>state\<close>, \<open>node\<close> and \<open>ip\<close> are the fields of the record.
\<close>

theorem callback_observes_every_record:
  assumes "fetchIndex env endpoint ''otlp-metrics'' sent = (Inr first, sent1)"
    and "fetchIndex env endpoint ''otlp-logs'' sent1 = (Inr second, sent2)"
    and "fst (callback env endpoint sent []) = None"
  shows "\<exists>made. callback env endpoint sent [] = (None, made, sent2) \<and>
           length made = length first + length second \<and>
           list_all2 observationOf (first @ second) made"
proof -
  have fetch: "fetchShardInfo env endpoint sent = (Inr (first @ second), sent2)"
    using fetchShardInfo_two [OF assms(1,2)] .
  obtain err made where loop: "observeLoop (first @ second) [] = (err, made)"
    by (cases "observeLoop (first @ second) []")
  with fetch have cb: "callback env endpoint sent [] = (err, made, sent2)"
    by (simp add: callback_def)
  with assms(3) have "err = None" by simp
  with loop observeLoop_success [of "first @ second" "[]" made]
  have all: "list_all2 observationOf (first @ second) made"
    by simp
  then have "length made = length first + length second"
    by (simp add: list_all2_lengthD [symmetric])
  with cb \<open>err = None\<close> all show ?thesis by simp
qed

theorem callback_observes_every_record_witness:
  "callback healthy localhost [] [] =
     (None, [observation0, observation1],
      [requestFor localhost ''otlp-metrics'', requestFor localhost ''otlp-logs'']) \<and>
   observationOf shard0 observation0 \<and> observationOf shard1 observation1"
proof -
  have "fst (callback healthy localhost [] []) = None"
    by (simp add: healthy_callback)
  from callback_observes_every_record [OF healthy_metrics healthy_logs this]
  show ?thesis
    by (simp add: healthy_callback)
qed

subsection \<open>The size parser\<close>

lemma spaceLen_ascii: "asciiSpace c \<Longrightarrow> spaceLen table (c # s) = 1"
  by (simp add: spaceLen_def)

lemma spaceLen_unicode: "w \<in> set unicodeSpace \<Longrightarrow> spaceLen unicodeSpace (w @ s) = length w"
  by (auto simp: unicodeSpace_def spaceLen_def asciiSpace_def)

lemma spaceRune_cases:
  assumes "spaceRune w"
  obtains c where "w = [c]" and "asciiSpace c" | "w \<in> set unicodeSpace"
  using assms by (auto simp: spaceRune_def split: list.splits)

lemma spaceRune_not_Nil: "spaceRune w \<Longrightarrow> w \<noteq> []"
  by (auto simp: spaceRune_def unicodeSpace_def)

lemma spaceLen_spaceRune: "spaceRune w \<Longrightarrow> spaceLen unicodeSpace (w @ s) = length w \<and> w \<noteq> []"
  using spaceRune_not_Nil [of w]
  by (auto elim!: spaceRune_cases simp: spaceLen_ascii spaceLen_unicode)

lemma trimSpaces_spaceRune: "spaceRune w \<Longrightarrow> trimSpaces unicodeSpace (w @ s) = trimSpaces unicodeSpace s"
  using spaceLen_spaceRune [of w s]
  by (subst trimSpaces.simps) simp

lemma trimSpaces_whitespace:
  "list_all spaceRune ws \<Longrightarrow> trimSpaces unicodeSpace (concat ws @ s) = trimSpaces unicodeSpace s"
  by (induction ws) (simp_all add: trimSpaces_spaceRune)

lemma trimSpaces_Nil: "trimSpaces table [] = []"
  by (subst trimSpaces.simps) simp

lemma TrimSpace_whitespace: "list_all spaceRune ws \<Longrightarrow> TrimSpace (concat ws) = []"
  using trimSpaces_whitespace [of ws "[]"] by (simp add: TrimSpace_def trimSpaces_Nil)

lemma HasSuffix_iff: "HasSuffix s suffix \<longleftrightarrow> (\<exists>p. s = p @ suffix)"
proof
  assume "HasSuffix s suffix"
  then have "s = take (length s - length suffix) s @ suffix"
    by (metis HasSuffix_def append_take_drop_id)
  then show "\<exists>p. s = p @ suffix" ..
next
  assume "\<exists>p. s = p @ suffix"
  then show "HasSuffix s suffix"
    by (auto simp: HasSuffix_def)
qed


lemma HasSuffix_unit:
  assumes "HasSuffix s [a, CHR ''b'']" and "a \<noteq> c"
  shows "\<not> HasSuffix s [c, CHR ''b'']"
  using assms by (auto simp: HasSuffix_iff)

lemma float64_const_0: "float64_const 0 = Finite False 0 0"
  by (simp add: float64_const_def round64_def)

lemma ParseFloat_error:
  assumes "ParseFloat s = Inl err"
  shows "Num err = s" and "Func err = ''ParseFloat''"
  using assms
  by (auto simp: ParseFloat_def syntaxError_def rangeError_def
      split: option.splits if_splits prod.splits float64.splits)

text \<open>
  Claim C8. An input that is empty or made of white space only (a sequence of white space
  characters, ASCII or not) gives \<open>0.0\<close> and no error.
\<close>

theorem whitespace_is_zero:
  assumes "list_all spaceRune ws"
  shows "convertStoreToBytes (concat ws) = Inr (Finite False 0 0)"
  using TrimSpace_whitespace [OF assms]
  by (simp add: convertStoreToBytes_def float64_const_0)

theorem whitespace_is_zero_witness:
  "convertStoreToBytes '''' = Inr (Finite False 0 0) \<and>
   convertStoreToBytes ''   '' = Inr (Finite False 0 0)"
proof -
  have "list_all spaceRune []" "list_all spaceRune ['' '', '' '', '' '']"
    by (simp_all add: spaceRune_def asciiSpace_def)
  from this [THEN whitespace_is_zero] show ?thesis by simp
qed

text \<open>
  Claim C4, as the code has it. An input whose trimmed form is not empty and does not
  end in \<open>kb\<close>, \<open>mb\<close> or \<open>gb\<close> fails with the error \<open>UnknownUnit\<close>, which carries the
  trimmed input: \<open>store = strings.TrimSpace(store)\<close> has replaced the argument before
  the error is built.
\<close>

theorem unknown_unit_carries_trimmed_input:
  assumes "TrimSpace s \<noteq> []"
    and "\<not> HasSuffix (TrimSpace s) ''kb''"
    and "\<not> HasSuffix (TrimSpace s) ''mb''"
    and "\<not> HasSuffix (TrimSpace s) ''gb''"
  shows "convertStoreToBytes s = Inl (UnknownUnit (TrimSpace s))"
  using assms by (simp add: convertStoreToBytes_def)

theorem unknown_unit_carries_trimmed_input_witness:
  "convertStoreToBytes ''10tb'' = Inl (UnknownUnit ''10tb'') \<and>
   convertStoreToBytes ''abc'' = Inl (UnknownUnit ''abc'') \<and>
   convertStoreToBytes '' 10tb '' = Inl (UnknownUnit ''10tb'')"
proof -
  have a: "TrimSpace ''10tb'' = ''10tb''" and b: "TrimSpace ''abc'' = ''abc''"
    and c: "TrimSpace '' 10tb '' = ''10tb''"
    by (simp_all add: string_eval)
  have "convertStoreToBytes ''10tb'' = Inl (UnknownUnit ''10tb'')"
    using unknown_unit_carries_trimmed_input [of "''10tb''"] by (simp add: a HasSuffix_def)
  moreover have "convertStoreToBytes ''abc'' = Inl (UnknownUnit ''abc'')"
    using unknown_unit_carries_trimmed_input [of "''abc''"] by (simp add: b HasSuffix_def)
  moreover have "convertStoreToBytes '' 10tb '' = Inl (UnknownUnit ''10tb'')"
    using unknown_unit_carries_trimmed_input [of "'' 10tb ''"] by (simp add: c HasSuffix_def)
  ultimately show ?thesis by simp
qed

text \<open>
  Claim C4, as the specification states it, fails: the error does not carry the input as
  it was given. For the input \<open>10tb\<close> between two spaces it carries \<open>10tb\<close> without them.
\<close>

theorem unknown_unit_drops_white_space:
  "TrimSpace '' 10tb '' = ''10tb'' \<and>
   convertStoreToBytes '' 10tb '' = Inl (UnknownUnit ''10tb'') \<and>
   convertStoreToBytes '' 10tb '' \<noteq> Inl (UnknownUnit '' 10tb '')"
  by (simp add: convert_eval)

text \<open>
  Claim C6. An input whose trimmed form ends in \<open>kb\<close>, \<open>mb\<close> or \<open>gb\<close>, and whose
  remainder before the unit \<open>strconv.ParseFloat\<close> rejects, fails with the error
  \<open>MalformedNumber\<close>, which wraps the error of \<open>ParseFloat\<close>; that error carries the
  remainder.
\<close>

theorem malformed_number_carries_remainder:
  assumes "unit \<in> {''kb'', ''mb'', ''gb''}"
    and "HasSuffix (TrimSpace s) unit"
    and "ParseFloat (TrimSuffix (TrimSpace s) unit) = Inl err"
  shows "convertStoreToBytes s = Inl (MalformedNumber err) \<and>
         Num err = TrimSuffix (TrimSpace s) unit"
proof -
  from assms(2) have "TrimSpace s \<noteq> []"
    using assms(1) by (auto simp: HasSuffix_def)
  moreover from assms(1,2) have
    "unit = ''kb'' \<or>
     unit = ''mb'' \<and> \<not> HasSuffix (TrimSpace s) ''kb'' \<or>
     unit = ''gb'' \<and> \<not> HasSuffix (TrimSpace s) ''kb'' \<and> \<not> HasSuffix (TrimSpace s) ''mb''"
    by (auto dest: HasSuffix_unit)
  ultimately have "convertStoreToBytes s = Inl (MalformedNumber err)"
    using assms(2,3) by (auto simp: convertStoreToBytes_def)
  with ParseFloat_error(1) [OF assms(3)] show ?thesis by simp
qed

theorem malformed_number_carries_remainder_witness:
  "convertStoreToBytes ''xxkb'' =
     Inl (MalformedNumber \<lparr>Func = ''ParseFloat'', Num = ''xx'', Err = ErrSyntax\<rparr>)"
proof -
  have trim: "TrimSpace ''xxkb'' = ''xxkb''"
    by (simp add: string_eval)
  have suffix: "HasSuffix (TrimSpace ''xxkb'') ''kb''"
    by (simp add: trim HasSuffix_def)
  have parse: "ParseFloat (TrimSuffix (TrimSpace ''xxkb'') ''kb'') =
      Inl \<lparr>Func = ''ParseFloat'', Num = ''xx'', Err = ErrSyntax\<rparr>"
    by (simp add: trim TrimSuffix_def HasSuffix_def parse_eval)
  from malformed_number_carries_remainder [OF _ suffix parse] show ?thesis by simp
qed

text \<open>
  Claim C10. The remainder is parsed by \<open>strconv.ParseFloat\<close>, which accepts more than
  a sign, digits and a point: \<open>1e3kb\<close> (an exponent) gives \<open>1024000\<close>, \<open>NaNmb\<close> gives a
  NaN and \<open>+Infgb\<close> an infinity, none with an error; the last two values are not finite.
\<close>

theorem general_float_syntax_accepted:
  "convertStoreToBytes ''1e3kb'' = Inr (float64_const 1024000) \<and>
   convertStoreToBytes ''NaNmb'' = Inr NaN \<and>
   convertStoreToBytes ''+Infgb'' = Inr (Infinity False)"
  by (simp add: convert_eval)

subsection \<open>Decimal numerals\<close>



















subsection \<open>Rounding and overflow\<close>

lemma bitlen_bounds:
  "0 < n \<Longrightarrow> 2 ^ (bitlen n - 1) \<le> n \<and> n < 2 ^ bitlen n"
proof (induction n rule: bitlen.induct)
  case (1 n)
  show ?case
  proof (cases "n div 2 = 0")
    case True
    with "1.prems" have "n = 1"
      by (simp add: div_eq_0_iff) 
    then show ?thesis
      by (simp add: bitlen.simps [of "Suc 0"] bitlen.simps [of 0])
  next
    case False
    then have pos: "0 < n div 2" by simp
    from "1.IH" [OF _ pos] "1.prems"
    have ih: "2 ^ (bitlen (n div 2) - 1) \<le> n div 2" "n div 2 < 2 ^ bitlen (n div 2)"
      by simp_all
    have b: "bitlen n = Suc (bitlen (n div 2))"
      using "1.prems" by (subst bitlen.simps) simp
    have b1: "0 < bitlen (n div 2)"
      using pos by (subst bitlen.simps) simp
    then obtain j where j: "bitlen (n div 2) = Suc j"
      by (cases "bitlen (n div 2)") simp_all
    from ih j have "2 ^ j \<le> n div 2" "n div 2 < 2 * 2 ^ j"
      by simp_all
    then have "2 * 2 ^ j \<le> n" "n < 2 * (2 * 2 ^ j)"
      by arith+
    then show ?thesis
      by (simp add: b j)
  qed
qed

lemma roundHalfEven_le:
  assumes "0 < D" and "n < D * K"
  shows "roundHalfEven n D \<le> K"
proof -
  have "n div D < K"
    using assms by (simp add: div_less_iff_less_mult mult.commute)
  then show ?thesis
    by (simp add: roundHalfEven_def Let_def)
qed

lemma roundHalfEven_ge:
  assumes "0 < D" and "D * K \<le> n"
  shows "K \<le> roundHalfEven n D"
proof -
  have "K \<le> n div D"
    using assms by (simp add: less_eq_div_iff_mult_less_eq mult.commute)
  then show ?thesis
    by (simp add: roundHalfEven_def Let_def)
qed

lemma roundHalfEven_less:
  assumes "0 < D" and "2 * n < D * (2 * K - 1)"
  shows "roundHalfEven n D < K"
proof -
  define q r where "q = n div D" and "r = n mod D"
  have n: "n = q * D + r" and r: "r < D"
    using assms(1) by (simp_all add: q_def r_def)
  have "D * (2 * K - 1) \<le> 2 * (D * K)"
    by (simp add: algebra_simps)
  with assms(2) have "n < D * K"
    by linarith
  then have qK: "q < K"
    using assms(1) by (simp add: q_def div_less_iff_less_mult mult.commute)
  show ?thesis
  proof (cases "q + 1 < K")
    case True
    then show ?thesis
      by (simp add: roundHalfEven_def Let_def q_def [symmetric])
  next
    case False
    with qK have K: "K = q + 1" by simp
    have "D * (2 * K - 1) = 2 * (q * D) + D"
      by (simp add: K algebra_simps)
    with assms(2) n have "2 * r < D"
      by linarith
    then show ?thesis
      by (simp add: roundHalfEven_def Let_def q_def [symmetric] r_def [symmetric] K)
  qed
qed

lemma roundHalfEven_ge_half:
  assumes "0 < D" and "even K" and "D * (2 * K - 1) \<le> 2 * n"
  shows "K \<le> roundHalfEven n D"
proof (cases "K = 0")
  case True
  then show ?thesis by simp
next
  case False
  define q r where "q = n div D" and "r = n mod D"
  have n: "n = q * D + r" and r: "r < D"
    using assms(1) by (simp_all add: q_def r_def)
  from False obtain k where K: "K = Suc k"
    by (cases K) simp_all
  have "2 * (D * k) \<le> D * (2 * K - 1)"
    by (simp add: K algebra_simps)
  with assms(3) have "D * k \<le> n"
    by linarith
  then have kq: "k \<le> q"
    using assms(1) by (simp add: q_def less_eq_div_iff_mult_less_eq mult.commute)
  show ?thesis
  proof (cases "K \<le> q")
    case True
    then show ?thesis
      by (simp add: roundHalfEven_def Let_def q_def [symmetric])
  next
    case False
    with kq K have q: "q = k" by simp
    have "D * (2 * K - 1) = 2 * (q * D) + D"
      by (simp add: K q algebra_simps)
    with assms(3) n have "D \<le> 2 * r"
      by linarith
    moreover have "odd q"
      using assms(2) by (simp add: K q)
    ultimately show ?thesis
      by (simp add: roundHalfEven_def Let_def q_def [symmetric] r_def [symmetric] K q)
  qed
qed

lemma floorlog2_bounds:
  assumes "0 < n" and "0 < d"
  defines "L \<equiv> floorlog2 n d"
  shows "0 \<le> L \<Longrightarrow> d * 2 ^ nat L \<le> n \<and> n < 2 * (d * 2 ^ nat L)"
    and "L < 0 \<Longrightarrow> n * 2 ^ nat (- L) < 2 * d"
proof -
  define bn bd where "bn = bitlen n" and "bd = bitlen d"
  have n: "2 ^ (bn - 1) \<le> n" "n < 2 ^ bn" and d: "2 ^ (bd - 1) \<le> d" "d < 2 ^ bd"
    using bitlen_bounds [OF assms(1)] bitlen_bounds [OF assms(2)]
    by (simp_all add: bn_def bd_def)
  have "bn \<noteq> 0" "bd \<noteq> 0"
    using n(2) d(2) assms(1,2) by (auto intro: ccontr)
  then obtain bn' bd' where bn: "bn = Suc bn'" and bd: "bd = Suc bd'"
    by (cases bn; cases bd) simp_all
  have n1: "2 ^ bn' \<le> n" and d1: "2 ^ bd' \<le> d"
    using n(1) d(1) by (simp_all add: bn bd)
  have both: "(0 \<le> L \<longrightarrow> d * 2 ^ nat L \<le> n \<and> n < 2 * (d * 2 ^ nat L)) \<and>
      (L < 0 \<longrightarrow> n * 2 ^ nat (- L) < 2 * d)"
  proof (cases "bd \<le> bn")
    case True
    then obtain j where j: "bn = bd + j"
      by (auto simp: le_iff_add)
    have k: "int (bitlen n) - int (bitlen d) = int j"
      by (simp add: bn_def [symmetric] bd_def [symmetric] j)
    show ?thesis
    proof (cases "d * 2 ^ j \<le> n")
      case cond: True
      then have L: "L = int j"
        by (simp add: L_def floorlog2_def k)
      have "n < 2 ^ bd * 2 ^ j"
        using n(2) by (simp add: j power_add)
      also have "(2::nat) ^ bd * 2 ^ j = 2 * (2 ^ bd' * 2 ^ j)"
        by (simp add: bd)
      also have "\<dots> \<le> 2 * (d * 2 ^ j)"
        using d1 by simp
      finally show ?thesis
        using cond by (simp add: L)
    next
      case cond: False
      then have L: "L = int j - 1"
        by (simp add: L_def floorlog2_def k)
      show ?thesis
      proof (cases j)
        case 0
        with cond show ?thesis by (simp add: L)
      next
        case (Suc j')
        have "d * 2 ^ j' \<le> 2 ^ bd * 2 ^ j'"
          using d(2) by simp
        also have "(2::nat) ^ bd * 2 ^ j' = 2 ^ bn'"
          using j by (simp add: Suc bn power_add)
        also have "\<dots> \<le> n" by (rule n1)
        finally show ?thesis
          using cond by (simp add: L Suc)
      qed
    qed
  next
    case False
    then obtain j where j: "bd = bn + Suc j"
      by (metis add_Suc_right less_iff_Suc_add not_le)
    have k: "int (bitlen n) - int (bitlen d) = - int (Suc j)"
      by (simp add: bn_def [symmetric] bd_def [symmetric] j)
    have "n * 2 ^ Suc j < 2 ^ bn * 2 ^ Suc j"
      using n(2) by simp
    also have "(2::nat) ^ bn * 2 ^ Suc j = 2 * 2 ^ bd'"
      using j by (simp add: bd power_add)
    also have "\<dots> \<le> 2 * d"
      using d1 by simp
    finally have up: "n * 2 ^ Suc j < 2 * d" .
    show ?thesis
    proof (cases "d \<le> n * 2 ^ Suc j")
      case cond: True
      then have L: "L = - int (Suc j)"
        using k by (simp add: L_def floorlog2_def Let_def nat_add_distrib)
      show ?thesis
        using up by (simp add: L nat_add_distrib)
    next
      case cond: False
      then have L: "L = - int (Suc j) - 1"
        using k by (simp add: L_def floorlog2_def Let_def nat_add_distrib)
      with cond show ?thesis
        by (simp add: L nat_add_distrib)
    qed
  qed
  show "0 \<le> L \<Longrightarrow> d * 2 ^ nat L \<le> n \<and> n < 2 * (d * 2 ^ nat L)"
    using both by simp
  show "L < 0 \<Longrightarrow> n * 2 ^ nat (- L) < 2 * d"
    using both by simp
qed

lemma round64_unfold:
  assumes "0 < n"
    and "e = max (floorlog2 n d - 52) (- 1074)"
    and "m = (if 0 \<le> e then roundHalfEven n (d * 2 ^ nat e) else roundHalfEven (n * 2 ^ nat (- e)) d)"
  shows "round64 neg n d =
     (if m = 0 then Finite neg 0 0
      else if m = 2 ^ 53 then (if 970 < e then Infinity neg else Finite neg (2 ^ 52) (e + 1))
      else if 971 < e then Infinity neg
      else Finite neg m e)"
  using assms by (simp add: round64_def Let_def)

lemma threshold_facts:
  fixes T :: nat
  defines "T \<equiv> 2 ^ 1024 - 2 ^ 970"
  shows "1 \<le> T" and "2 * 2 ^ 1022 \<le> T" and "2 ^ 971 * (2 * 2 ^ 53 - 1) = 2 * T"
    and "T \<le> 2 ^ 1024"
  by (simp_all add: T_def)

lemma round64_overflow:
  assumes "0 < d" and "d * (2 ^ 1024 - 2 ^ 970) \<le> n"
  shows "round64 neg n d = Infinity neg"
proof -
  define T :: nat where "T = 2 ^ 1024 - 2 ^ 970"
  note T = threshold_facts [folded T_def]
  have dT: "d * T \<le> n"
    using assms(2) by (simp add: T_def)
  define L where "L = floorlog2 n d"
  define e where "e = max (L - 52) (- 1074)"
  define m where "m = (if 0 \<le> e then roundHalfEven n (d * 2 ^ nat e)
    else roundHalfEven (n * 2 ^ nat (- e)) d)"
  have "d * 1 \<le> d * T"
    using T(1) by (rule mult_le_mono2)
  then have "d \<le> d * T"
    by simp
  with dT assms(1) have n: "0 < n" and dn: "d \<le> n"
    by linarith+
  have L0: "0 \<le> L"
  proof (rule ccontr)
    assume "\<not> 0 \<le> L"
    then have "L < 0" by simp
    from floorlog2_bounds(2) [OF n assms(1) this [unfolded L_def]]
    have "n * 2 ^ nat (- L) < 2 * d"
      by (simp add: L_def)
    moreover have "n * 2 ^ 1 \<le> n * 2 ^ nat (- L)"
      using \<open>L < 0\<close> by (intro mult_le_mono2 power_increasing) simp_all
    then have "2 * n \<le> n * 2 ^ nat (- L)"
      by (simp add: mult.commute)
    ultimately show False
      using dn by linarith
  qed
  from floorlog2_bounds(1) [OF n assms(1) L0 [unfolded L_def]]
  have lo: "d * 2 ^ nat L \<le> n" and hi: "n < 2 * (d * 2 ^ nat L)"
    by (simp_all add: L_def)
  have L1023: "1023 \<le> L"
  proof (rule ccontr)
    assume "\<not> 1023 \<le> L"
    then have "nat L \<le> 1022" by simp
    then have "(2::nat) ^ nat L \<le> 2 ^ 1022"
      by (intro power_increasing) simp_all
    then have "d * (2 * 2 ^ nat L) \<le> d * (2 * 2 ^ 1022)"
      by (intro mult_le_mono2) simp
    also have "\<dots> \<le> d * T"
      using T(2) by (rule mult_le_mono2)
    finally have "2 * (d * 2 ^ nat L) \<le> d * T"
      by (simp add: mult.left_commute)
    with hi dT show False
      by linarith
  qed
  then have e: "e = L - 52" and e0: "0 \<le> e" and e971: "971 \<le> e"
    by (simp_all add: e_def)
  have natL: "nat L = nat e + 52"
    using e e0 by simp
  define D where "D = d * 2 ^ nat e"
  have D: "0 < D"
    using assms(1) by (simp add: D_def)
  have m: "m = roundHalfEven n D"
    using e0 by (simp add: m_def D_def)
  have loD: "D * 2 ^ 52 \<le> n" and hiD: "n < D * 2 ^ 53"
    using lo hi by (simp_all add: D_def natL power_add mult.assoc)
  have m52: "2 ^ 52 \<le> m"
    unfolding m using D loD by (rule roundHalfEven_ge)
  moreover have "(0::nat) < 2 ^ 52"
    by simp
  ultimately have m0: "m \<noteq> 0"
    by linarith
  have unfold: "round64 neg n d =
     (if m = 0 then Finite neg 0 0
      else if m = 2 ^ 53 then (if 970 < e then Infinity neg else Finite neg (2 ^ 52) (e + 1))
      else if 971 < e then Infinity neg
      else Finite neg m e)"
    by (rule round64_unfold [OF n]) (simp_all add: e_def L_def m_def)
  show ?thesis
  proof (cases "e = 971")
    case False
    with e971 have "971 < e" by simp
    then show ?thesis
      using m0 by (simp add: unfold)
  next
    case True
    have "nat e = 971"
      by (simp add: True)
    then have "D * (2 * 2 ^ 53 - 1) = d * (2 ^ 971 * (2 * 2 ^ 53 - 1))"
      by (simp only: D_def mult.assoc)
    also have "\<dots> = 2 * (d * T)"
      by (simp only: T(3) mult.left_commute)
    finally have "D * (2 * 2 ^ 53 - 1) \<le> 2 * n"
      using dT by simp
    with D have "2 ^ 53 \<le> roundHalfEven n D"
      by (intro roundHalfEven_ge_half) simp_all
    moreover have "roundHalfEven n D \<le> 2 ^ 53"
      using D hiD by (rule roundHalfEven_le)
    ultimately have "m = 2 ^ 53"
      by (simp add: m)
    then show ?thesis
      by (simp add: unfold True)
  qed
qed

lemma round64_finite:
  assumes "0 < d" and "n < d * (2 ^ 1024 - 2 ^ 970)"
  shows "\<exists>m e. round64 neg n d = Finite neg m e"
proof (cases "n = 0")
  case True
  then show ?thesis
    by (simp add: round64_def)
next
  case False
  then have n: "0 < n" by simp
  define T :: nat where "T = 2 ^ 1024 - 2 ^ 970"
  note T = threshold_facts [folded T_def]
  have dT: "n < d * T"
    using assms(2) by (simp add: T_def)
  define L where "L = floorlog2 n d"
  define e where "e = max (L - 52) (- 1074)"
  define m where "m = (if 0 \<le> e then roundHalfEven n (d * 2 ^ nat e)
    else roundHalfEven (n * 2 ^ nat (- e)) d)"
  have L1023: "L \<le> 1023"
  proof (rule ccontr)
    assume "\<not> L \<le> 1023"
    then have L: "0 \<le> L" "1024 \<le> nat L" by simp_all
    from floorlog2_bounds(1) [OF n assms(1) L(1) [unfolded L_def]]
    have lo: "d * 2 ^ nat L \<le> n"
      by (simp add: L_def)
    have "(2::nat) ^ 1024 \<le> 2 ^ nat L"
      using L(2) by (intro power_increasing) simp_all
    with T(4) have "T \<le> 2 ^ nat L"
      by (rule order_trans)
    then have "d * T \<le> d * 2 ^ nat L"
      by (rule mult_le_mono2)
    with lo dT show False
      by linarith
  qed
  then have e971: "e \<le> 971"
    by (simp add: e_def)
  have unfold: "round64 neg n d =
     (if m = 0 then Finite neg 0 0
      else if m = 2 ^ 53 then (if 970 < e then Infinity neg else Finite neg (2 ^ 52) (e + 1))
      else if 971 < e then Infinity neg
      else Finite neg m e)"
    by (rule round64_unfold [OF n]) (simp_all add: e_def L_def m_def)
  have "m \<noteq> 2 ^ 53" if "970 < e"
  proof -
    from that e971 have e: "e = 971" by simp
    then have "nat e = 971" by simp
    define D where "D = d * 2 ^ nat e"
    have D: "0 < D"
      using assms(1) by (simp add: D_def)
    have m: "m = roundHalfEven n D"
      using e by (simp add: m_def D_def)
    from \<open>nat e = 971\<close> have "D * (2 * 2 ^ 53 - 1) = d * (2 ^ 971 * (2 * 2 ^ 53 - 1))"
      by (simp only: D_def mult.assoc)
    also have "\<dots> = 2 * (d * T)"
      by (simp only: T(3) mult.left_commute)
    finally have "2 * n < D * (2 * 2 ^ 53 - 1)"
      using dT by simp
    with D have "roundHalfEven n D < 2 ^ 53"
      by (rule roundHalfEven_less)
    then show ?thesis
      by (simp add: m)
  qed
  then show ?thesis
    using e971 by (auto simp: unfold)
qed

lemma round64_overflow_iff:
  assumes "0 < d"
  shows "round64 neg n d = Infinity neg \<longleftrightarrow> d * (2 ^ 1024 - 2 ^ 970) \<le> n"
proof
  assume inf: "round64 neg n d = Infinity neg"
  show "d * (2 ^ 1024 - 2 ^ 970) \<le> n"
  proof (rule ccontr)
    assume "\<not> d * (2 ^ 1024 - 2 ^ 970) \<le> n"
    then have "n < d * (2 ^ 1024 - 2 ^ 970)"
      by simp
    from round64_finite [OF assms this, of neg] inf show False
      by auto
  qed
next
  assume "d * (2 ^ 1024 - 2 ^ 970) \<le> n"
  with assms show "round64 neg n d = Infinity neg"
    by (rule round64_overflow)
qed

text \<open>An integer constant below \<open>2 ^ 53\<close> is converted without rounding.\<close>

lemma roundHalfEven_one: "roundHalfEven n 1 = n" "roundHalfEven n (Suc 0) = n"
  by (simp_all add: roundHalfEven_def)

lemma float64_const_exact:
  assumes "n < 2 ^ 53"
  shows "\<exists>m e. float64_const n = Finite False m e \<and>
           (0 \<le> e \<longrightarrow> m * 2 ^ nat e = n) \<and> (e < 0 \<longrightarrow> m = n * 2 ^ nat (- e))"
proof (cases "n = 0")
  case True
  then show ?thesis
    by (simp add: float64_const_def round64_def)
next
  case False
  then have n: "0 < n" by simp
  define L where "L = floorlog2 n 1"
  define e where "e = max (L - 52) (- 1074)"
  define m where "m = (if 0 \<le> e then roundHalfEven n (1 * 2 ^ nat e)
    else roundHalfEven (n * 2 ^ nat (- e)) 1)"
  have L0: "0 \<le> L"
  proof (rule ccontr)
    assume "\<not> 0 \<le> L"
    then have "L < 0" by simp
    from floorlog2_bounds(2) [OF n _ this [unfolded L_def]]
    have "n * 2 ^ nat (- L) < 2 * 1"
      by (simp add: L_def)
    moreover have "n * 2 ^ 1 \<le> n * 2 ^ nat (- L)"
      using \<open>L < 0\<close> by (intro mult_le_mono2 power_increasing) simp_all
    then have "2 * n \<le> n * 2 ^ nat (- L)"
      by (simp add: mult.commute)
    ultimately show False
      using n by linarith
  qed
  from floorlog2_bounds(1) [OF n _ L0 [unfolded L_def]]
  have lo: "2 ^ nat L \<le> n" and hi: "n < 2 * 2 ^ nat L"
    by (simp_all add: L_def)
  have "(2::nat) ^ nat L < 2 ^ 53"
    using lo assms by (rule le_less_trans)
  then have "nat L < 53"
    by (simp only: power_strict_increasing_iff)
  with L0 have L52: "L \<le> 52" by simp
  then have e: "e = L - 52" "e \<le> 0"
    using L0 by (simp_all add: e_def)
  have natL: "nat L + nat (- e) = 52"
    using e L0 L52 by simp
  have m: "m = n * 2 ^ nat (- e)"
    using e by (cases "e = 0") (simp_all add: m_def roundHalfEven_one)
  have "n * 2 ^ nat (- e) < (2 * 2 ^ nat L) * 2 ^ nat (- e)"
    using hi by simp
  also have "\<dots> = 2 ^ Suc (nat L + nat (- e))"
    by (simp add: power_add)
  also have "\<dots> = 2 ^ 53"
    by (simp add: natL)
  finally have m53: "m < 2 ^ 53"
    by (simp add: m)
  have m0: "m \<noteq> 0"
    using n by (simp add: m)
  have "round64 False n 1 =
     (if m = 0 then Finite False 0 0
      else if m = 2 ^ 53 then (if 970 < e then Infinity False else Finite False (2 ^ 52) (e + 1))
      else if 971 < e then Infinity False
      else Finite False m e)"
    by (rule round64_unfold [OF n]) (simp_all add: e_def L_def m_def)
  with m0 m53 e(2) have "round64 False n 1 = Finite False m e"
    by simp
  with m e(2) show ?thesis
    by (auto simp: float64_const_def)
qed

subsection \<open>Exact results\<close>

lemma roundHalfEven_exact: "0 < D \<Longrightarrow> roundHalfEven (m * D) D = m"
  by (simp add: roundHalfEven_def)

lemma floorlog2_lower_neg:
  assumes "0 < n" and "0 < d" and "floorlog2 n d < 0"
  shows "d \<le> n * 2 ^ nat (- floorlog2 n d)"
proof -
  define bn bd where "bn = bitlen n" and "bd = bitlen d"
  have n: "2 ^ (bn - 1) \<le> n" "n < 2 ^ bn" and d: "2 ^ (bd - 1) \<le> d" "d < 2 ^ bd"
    using bitlen_bounds [OF assms(1)] bitlen_bounds [OF assms(2)]
    by (simp_all add: bn_def bd_def)
  have "bn \<noteq> 0"
    using n(2) assms(1) by (auto intro: ccontr)
  then obtain bn' where bn: "bn = Suc bn'"
    by (cases bn) simp_all
  have n1: "2 ^ bn' \<le> n"
    using n(1) by (simp add: bn)
  show ?thesis
  proof (cases "bd \<le> bn")
    case True
    then obtain j where j: "bn = bd + j"
      by (auto simp: le_iff_add)
    have k: "int (bitlen n) - int (bitlen d) = int j"
      by (simp add: bn_def [symmetric] bd_def [symmetric] j)
    from assms(3) k have j0: "j = 0" and cond: "\<not> d \<le> n" and L: "floorlog2 n d = - 1"
      by (auto simp: floorlog2_def Let_def split: if_splits)
    have "bd = Suc bn'"
      using j j0 bn by simp
    then have "d < 2 * 2 ^ bn'"
      using d(2) by simp
    also have "\<dots> \<le> 2 * n"
      using n1 by simp
    finally show ?thesis
      by (simp add: L)
  next
    case False
    then obtain j where j: "bd = bn + Suc j"
      by (metis add_Suc_right less_iff_Suc_add not_le)
    have k: "int (bitlen n) - int (bitlen d) = - int (Suc j)"
      by (simp add: bn_def [symmetric] bd_def [symmetric] j)
    show ?thesis
    proof (cases "d \<le> n * 2 ^ Suc j")
      case cond: True
      then have L: "floorlog2 n d = - int (Suc j)"
        using k by (simp add: floorlog2_def Let_def nat_add_distrib)
      show ?thesis
        using cond by (simp add: L nat_add_distrib)
    next
      case cond: False
      then have L: "floorlog2 n d = - int (Suc j) - 1"
        using k by (simp add: floorlog2_def Let_def nat_add_distrib)
      have "d < 2 ^ bn' * 2 ^ Suc (Suc j)"
        using d(2) j bn by (simp add: power_add)
      also have "\<dots> \<le> n * 2 ^ Suc (Suc j)"
        using n1 by (rule mult_le_mono1)
      finally show ?thesis
        by (simp add: L nat_add_distrib)
    qed
  qed
qed

lemma floorlog2_eq_nonneg:
  assumes "0 < d" and "d * 2 ^ j \<le> n" and "n < 2 * (d * 2 ^ j)"
  shows "floorlog2 n d = int j"
proof -
  define L where "L = floorlog2 n d"
  have "d * 1 \<le> d * 2 ^ j"
    by (rule mult_le_mono2) simp
  then have "d \<le> d * 2 ^ j"
    by simp
  with assms have n: "0 < n" and dn: "d \<le> n"
    by linarith+
  have L0: "0 \<le> L"
  proof (rule ccontr)
    assume "\<not> 0 \<le> L"
    then have "L < 0" by simp
    from floorlog2_bounds(2) [OF n assms(1) this [unfolded L_def]]
    have "n * 2 ^ nat (- L) < 2 * d"
      by (simp add: L_def)
    moreover have "n * 2 ^ 1 \<le> n * 2 ^ nat (- L)"
      using \<open>L < 0\<close> by (intro mult_le_mono2 power_increasing) simp_all
    then have "2 * n \<le> n * 2 ^ nat (- L)"
      by (simp add: mult.commute)
    ultimately show False
      using dn by linarith
  qed
  from floorlog2_bounds(1) [OF n assms(1) L0 [unfolded L_def]]
  have lo: "d * 2 ^ nat L \<le> n" and hi: "n < 2 * (d * 2 ^ nat L)"
    by (simp_all add: L_def)
  have "d * 2 ^ nat L < 2 * (d * 2 ^ j)"
    using lo assms(3) by linarith
  then have "d * 2 ^ nat L < d * 2 ^ Suc j"
    by (simp only: power_Suc mult.left_commute)
  then have "(2::nat) ^ nat L < 2 ^ Suc j"
    by (simp only: mult_less_cancel1)
  then have a: "nat L < Suc j"
    by (simp only: power_strict_increasing_iff)
  have "d * 2 ^ j < 2 * (d * 2 ^ nat L)"
    using hi assms(2) by linarith
  then have "d * 2 ^ j < d * 2 ^ Suc (nat L)"
    by (simp only: power_Suc mult.left_commute)
  then have "(2::nat) ^ j < 2 ^ Suc (nat L)"
    by (simp only: mult_less_cancel1)
  then have b: "j < Suc (nat L)"
    by (simp only: power_strict_increasing_iff)
  from a b L0 show ?thesis
    by (simp add: L_def)
qed

lemma floorlog2_eq_neg:
  assumes "0 < n" and "d \<le> n * 2 ^ j" and "n * 2 ^ j < 2 * d"
  shows "floorlog2 n d = - int j"
proof (cases j)
  case 0
  with assms have "0 < d" "d * 2 ^ 0 \<le> n" "n < 2 * (d * 2 ^ 0)"
    by simp_all
  from floorlog2_eq_nonneg [OF this] 0 show ?thesis
    by simp
next
  case (Suc j')
  define L where "L = floorlog2 n d"
  have d: "0 < d"
    using assms by (cases d) simp_all
  have "n * 2 ^ 1 \<le> n * 2 ^ j"
    unfolding Suc by (intro mult_le_mono2 power_increasing) simp_all
  then have "2 * n \<le> n * 2 ^ j"
    by (simp add: mult.commute)
  with assms(3) have nd: "n < d"
    by linarith
  have Lneg: "L < 0"
  proof (rule ccontr)
    assume "\<not> L < 0"
    then have "0 \<le> L" by simp
    from floorlog2_bounds(1) [OF assms(1) d this [unfolded L_def]]
    have "d * 2 ^ nat L \<le> n"
      by (simp add: L_def)
    moreover have "d * 1 \<le> d * 2 ^ nat L"
      by (rule mult_le_mono2) simp
    then have "d \<le> d * 2 ^ nat L"
      by simp
    ultimately show False
      using nd by linarith
  qed
  define i where "i = nat (- L)"
  have L: "L = - int i"
    using Lneg by (simp add: i_def)
  have hi: "n * 2 ^ i < 2 * d"
    using floorlog2_bounds(2) [OF assms(1) d Lneg [unfolded L_def]]
    by (simp add: i_def L_def)
  have lo: "d \<le> n * 2 ^ i"
    using floorlog2_lower_neg [OF assms(1) d Lneg [unfolded L_def]]
    by (simp add: i_def L_def)
  have "n * 2 ^ i < 2 * (n * 2 ^ j)"
    using hi assms(2) by linarith
  then have "n * 2 ^ i < n * 2 ^ Suc j"
    by (simp only: power_Suc mult.left_commute)
  then have "(2::nat) ^ i < 2 ^ Suc j"
    by (simp only: mult_less_cancel1)
  then have a: "i < Suc j"
    by (simp only: power_strict_increasing_iff)
  have "n * 2 ^ j < 2 * (n * 2 ^ i)"
    using lo assms(3) by linarith
  then have "n * 2 ^ j < n * 2 ^ Suc i"
    by (simp only: power_Suc mult.left_commute)
  then have "(2::nat) ^ j < 2 ^ Suc i"
    by (simp only: mult_less_cancel1)
  then have b: "j < Suc i"
    by (simp only: power_strict_increasing_iff)
  from a b show ?thesis
    by (simp add: L_def [symmetric] L)
qed

lemma round64_normal_up:
  assumes "2 ^ 52 \<le> m" and "m < 2 ^ 53" and "0 < d"
  shows "round64 neg (m * 2 ^ a * d) d = (if 971 < int a then Infinity neg else Finite neg m (int a))"
proof -
  define P :: nat where "P = 2 ^ 52"
  have P: "0 < P" "P \<le> m" "m < 2 * P" and PP: "2 ^ (52 + a) = P * 2 ^ a"
    using assms(1,2) by (simp_all add: P_def power_add)
  define D where "D = d * 2 ^ a"
  have D: "0 < D"
    using assms(3) by (simp add: D_def)
  define n where "n = m * 2 ^ a * d"
  have n: "n = m * D"
    unfolding n_def D_def by (simp only: mult_ac)
  have m0: "0 < m"
    using P by linarith
  then have n0: "0 < n"
    using D by (simp add: n)
  have "P * D \<le> m * D"
    using P(2) by (rule mult_le_mono1)
  moreover have "d * 2 ^ (52 + a) = P * D"
    unfolding PP D_def by (simp only: mult_ac)
  ultimately have lo: "d * 2 ^ (52 + a) \<le> n"
    by (simp only: n)
  have "m * D < (2 * P) * D"
    using P(3) D by simp
  moreover have "2 * (d * 2 ^ (52 + a)) = (2 * P) * D"
    unfolding PP D_def by (simp only: mult_ac)
  ultimately have hi: "n < 2 * (d * 2 ^ (52 + a))"
    by (simp only: n)
  have L: "floorlog2 n d = int (52 + a)"
    using assms(3) lo hi by (rule floorlog2_eq_nonneg)
  have "roundHalfEven n (d * 2 ^ a) = m"
    unfolding n D_def [symmetric] using D by (rule roundHalfEven_exact)
  then have "round64 neg n d =
     (if m = 0 then Finite neg 0 0
      else if m = 2 ^ 53 then (if 970 < int a then Infinity neg else Finite neg (2 ^ 52) (int a + 1))
      else if 971 < int a then Infinity neg
      else Finite neg m (int a))"
    by (intro round64_unfold [OF n0]) (simp_all add: L)
  with m0 assms(2) show ?thesis
    by (simp add: n_def)
qed

lemma round64_normal_down:
  assumes "2 ^ 52 \<le> m" and "m < 2 ^ 53" and "0 < d" and "0 < b" and "b \<le> 1074"
    and "n * 2 ^ b = m * d"
  shows "round64 neg n d = Finite neg m (- int b)"
proof -
  define P :: nat where "P = 2 ^ 52"
  have P: "0 < P" "P \<le> m" "m < 2 * P"
    using assms(1,2) by (simp_all add: P_def)
  have m0: "0 < m"
    using P by linarith
  have n0: "0 < n"
  proof (rule ccontr)
    assume "\<not> 0 < n"
    with assms(6) have "m * d = 0" by simp
    with m0 assms(3) show False by simp
  qed
  have lo': "P * d \<le> n * 2 ^ b" and hi': "n * 2 ^ b < (2 * P) * d"
    using P(2,3) assms(3) by (simp_all add: assms(6))
  have L: "floorlog2 n d = 52 - int b"
  proof (cases "b \<le> 52")
    case True
    then obtain j where j: "52 = b + j"
      by (auto simp: le_iff_add)
    have Pj: "P = 2 ^ j * 2 ^ b"
      unfolding P_def j power_add by (simp only: mult_ac)
    have "(d * 2 ^ j) * 2 ^ b \<le> n * 2 ^ b"
      using lo' unfolding Pj by (simp only: mult_ac)
    then have lo: "d * 2 ^ j \<le> n"
      by simp
    have "n * 2 ^ b < (2 * (d * 2 ^ j)) * 2 ^ b"
      using hi' unfolding Pj by (simp only: mult_ac)
    then have hi: "n < 2 * (d * 2 ^ j)"
      by simp
    from floorlog2_eq_nonneg [OF assms(3) lo hi] j show ?thesis
      by linarith
  next
    case False
    then obtain j where j: "b = 52 + j"
      by (metis le_iff_add nat_le_linear)
    have bj: "2 ^ b = P * 2 ^ j"
      by (simp only: P_def j power_add)
    have "d * P \<le> (n * 2 ^ j) * P"
      using lo' unfolding bj by (simp only: mult_ac)
    then have lo: "d \<le> n * 2 ^ j"
      using P(1) by simp
    have "(n * 2 ^ j) * P < (2 * d) * P"
      using hi' unfolding bj by (simp only: mult_ac)
    then have hi: "n * 2 ^ j < 2 * d"
      by simp
    from floorlog2_eq_neg [OF n0 lo hi] j show ?thesis
      by linarith
  qed
  have "roundHalfEven (n * 2 ^ b) d = m"
    using assms(3) by (simp only: assms(6) roundHalfEven_exact)
  then have "round64 neg n d =
     (if m = 0 then Finite neg 0 0
      else if m = 2 ^ 53 then (if 970 < - int b then Infinity neg else Finite neg (2 ^ 52) (- int b + 1))
      else if 971 < - int b then Infinity neg
      else Finite neg m (- int b))"
    using assms(4,5) by (intro round64_unfold [OF n0]) (simp_all add: L)
  with m0 assms(2) show ?thesis
    by simp
qed

lemma float64_const_power:
  assumes "k \<le> 1023"
  shows "float64_const (2 ^ k) = Finite False (2 ^ 52) (int k - 52)"
proof (cases "52 \<le> k")
  case True
  then obtain a where a: "k = 52 + a"
    by (auto simp: le_iff_add)
  have "round64 False (2 ^ 52 * 2 ^ a * 1) 1 =
      (if 971 < int a then Infinity False else Finite False (2 ^ 52) (int a))"
    by (rule round64_normal_up) simp_all
  moreover have "(2::nat) ^ k = 2 ^ 52 * 2 ^ a * 1"
    by (simp only: a power_add mult_1_right)
  ultimately show ?thesis
    using assms a by (simp only: float64_const_def) simp
next
  case False
  then obtain b where b: "52 = k + b" and b0: "0 < b"
    by (metis add.commute less_imp_add_positive not_le)
  have "round64 False (2 ^ k) 1 = Finite False (2 ^ 52) (- int b)"
  proof (rule round64_normal_down)
    show "(2::nat) ^ k * 2 ^ b = 2 ^ 52 * 1"
      by (simp only: b power_add mult_1_right)
    show "b \<le> 1074"
      using b by simp
  qed (use b0 in simp_all)
  moreover have "- int b = int k - 52"
    using b by simp
  ultimately show ?thesis
    by (simp only: float64_const_def)
qed

text \<open>
  Multiplying a normal number by a power of two changes its exponent only: the product is
  exact unless it overflows.
\<close>

lemma fmul_power_of_two:
  assumes "2 ^ 52 \<le> m" and "m < 2 ^ 53" and "- 1074 \<le> e" and "k \<le> 1023"
  shows "fmul (Finite neg m e) (float64_const (2 ^ k)) =
     (if 971 < e + int k then Infinity neg else Finite neg m (e + int k))"
proof -
  define X where "X = e + (int k - 52)"
  have fm: "fmul (Finite neg m e) (float64_const (2 ^ k)) =
      (case scale2 (m * 2 ^ 52) X of (n, d) \<Rightarrow> round64 neg n d)"
    by (simp only: float64_const_power [OF assms(4)] fmul.simps X_def) simp
  show ?thesis
  proof (cases "0 \<le> e + int k")
    case True
    define a where "a = nat (e + int k)"
    have a: "int a = e + int k"
      using True by (simp add: a_def)
    have up: "round64 neg (m * 2 ^ a * d) d =
        (if 971 < e + int k then Infinity neg else Finite neg m (e + int k))" if "0 < d" for d
      using round64_normal_up [OF assms(1,2) that, of neg a] by (simp only: a)
    show ?thesis
    proof (cases "0 \<le> X")
      case X: True
      have "a = 52 + nat X"
        using X by (simp add: a_def X_def)
      then have "m * 2 ^ 52 * 2 ^ nat X = m * 2 ^ a * 1"
        by (simp only: power_add mult_1_right mult.assoc)
      with up [of 1] X show ?thesis
        by (simp only: fm scale2_def) simp
    next
      case X: False
      have "a + nat (- X) = 52"
        using X True by (simp add: a_def X_def)
      then have "m * 2 ^ 52 = m * 2 ^ a * 2 ^ nat (- X)"
        by (simp only: power_add [symmetric] mult.assoc)
      with up [of "2 ^ nat (- X)"] X show ?thesis
        by (simp only: fm scale2_def) simp
    qed
  next
    case False
    define b where "b = nat (- (e + int k))"
    have b: "- int b = e + int k" "0 < b" "b \<le> 1074"
      using False assms(3) by (simp_all add: b_def)
    have X: "\<not> 0 \<le> X" "nat (- X) = 52 + b"
      using False by (simp_all add: X_def b_def)
    have "m * 2 ^ 52 * 2 ^ b = m * 2 ^ nat (- X)"
      by (simp only: X(2) power_add mult.assoc)
    with round64_normal_down [OF assms(1,2) _ b(2,3), of "2 ^ nat (- X)" "m * 2 ^ 52" neg]
    have "round64 neg (m * 2 ^ 52) (2 ^ nat (- X)) = Finite neg m (e + int k)"
      by (simp add: b(1))
    with X(1) False show ?thesis
      by (simp only: fm scale2_def) simp
  qed
qed

subsection \<open>Numerals with a unit\<close>





end
